theory Spec2Isabelle
  imports Complex_Main "HOL-Library.Word" "HOL-Library.Signed_Division"
begin

unbundle bit_operations_syntax

section \<open>The wall-clock sampling engine (src/wallClock.cpp, src/engine.cpp)\<close>

text \<open>
  The engine is modelled the way the C++ is written.  Machine integers are words:
  \<^verbatim>\<open>int\<close> is \<^typ>\<open>32 word\<close>, \<^verbatim>\<open>long\<close>, \<^verbatim>\<open>long long\<close> and \<^verbatim>\<open>uintptr_t\<close> are
  \<^typ>\<open>64 word\<close> (the 64-bit targets); signed comparisons are \<open><s\<close> and \<open>\<le>s\<close>.
  Signed overflow, which C++ leaves undefined, wraps around as the compiled code does;
  the theorems say where they need it not to happen.
\<close>

type_synonym tid = "32 word"
type_synonym nanos = "64 word"
type_synonym address = "64 word"

subsection \<open>Constants (wallClock.cpp, lines 28-36 and 101)\<close>

definition THREADS_PER_TICK :: "32 word" where
  "THREADS_PER_TICK = 8"

definition MIN_INTERVAL :: nanos where
  "MIN_INTERVAL = 100000"

text \<open>The literal \<^verbatim>\<open>10 * 1000 * 1000\<close> that \<^verbatim>\<open>walkStack\<close> passes to \<^verbatim>\<open>waitWhile\<close>;
  the spec calls it \<^verbatim>\<open>HANDSHAKE_TIMEOUT\<close>.\<close>

definition HANDSHAKE_TIMEOUT :: nanos where
  "HANDSHAKE_TIMEOUT = 10 * 1000 * 1000"

text \<open>Times are nanoseconds (\<^verbatim>\<open>OS::nanotime\<close>, \<^verbatim>\<open>OS::sleep\<close>).\<close>

definition NANOS_PER_MICRO :: nanos where
  "NANOS_PER_MICRO = 1000"


subsection \<open>adjustInterval (lines 140-145)\<close>

text \<open>C++ division truncates towards zero: \<open>sdiv\<close> on the signed values.\<close>

definition c_div :: "'a::len word \<Rightarrow> 'a word \<Rightarrow> 'a word" where
  "c_div a b = word_of_int (sint a sdiv sint b)"

text \<open>
  \<^verbatim>\<open>interval /= (thread_count + THREADS_PER_TICK - 1) / THREADS_PER_TICK\<close>: the
  divisor is computed in \<^verbatim>\<open>int\<close> and converted to \<^verbatim>\<open>long\<close> (\<open>scast\<close>) for the
  division of the interval.
\<close>

definition adjustInterval :: "nanos \<Rightarrow> 32 word \<Rightarrow> nanos" where
  "adjustInterval interval thread_count =
     (if THREADS_PER_TICK <s thread_count
      then c_div interval (scast (c_div (thread_count + THREADS_PER_TICK - 1) THREADS_PER_TICK))
      else interval)"

subsection \<open>getThreadState (lines 42-61)\<close>

datatype ThreadState = THREAD_UNKNOWN | THREAD_RUNNING | THREAD_SLEEPING

text \<open>
  What \<^verbatim>\<open>getThreadState\<close> uses and the repository's files here do not define is a
  parameter: the architecture's \<^verbatim>\<open>SYSCALL_SIZE\<close>, \<^verbatim>\<open>StackFrame::isSyscall\<close> (which
  reads the instruction at an address), and the profiler's library oracle
  \<^verbatim>\<open>findLibraryByAddress\<close> (\<open>True\<close> when it returns a library, not \<^verbatim>\<open>NULL\<close>).
\<close>

record machine =
  SYSCALL_SIZE :: address
  isSyscall :: "address \<Rightarrow> bool"
  findLibraryByAddress :: "address \<Rightarrow> bool"

text \<open>\<^verbatim>\<open>StackFrame frame(ucontext)\<close>: the interrupted program counter and the
  architecture's check of the frame for a syscall that returned with \<^verbatim>\<open>EINTR\<close>.\<close>

record frame =
  pc :: address
  checkInterruptedSyscall :: bool

text \<open>
  The result, together with the addresses whose instruction was read
  (the arguments of \<^verbatim>\<open>isSyscall\<close>), in the order of the reads.  \<^verbatim>\<open>||\<close> and \<^verbatim>\<open>&&\<close>
  evaluate their right operand only when the left one does not decide.
\<close>

definition getThreadState :: "machine \<Rightarrow> frame \<Rightarrow> ThreadState \<times> address list" where
  "getThreadState m f =
     (if isSyscall m (pc f) then (THREAD_SLEEPING, [pc f])
      else
        let prev_pc = pc f - SYSCALL_SIZE m in
        if SYSCALL_SIZE m \<le> (pc f AND 0xfff) \<or> findLibraryByAddress m prev_pc
        then (if isSyscall m prev_pc
              then (if checkInterruptedSyscall f
                    then (THREAD_SLEEPING, [pc f, prev_pc])
                    else (THREAD_RUNNING, [pc f, prev_pc]))
              else (THREAD_RUNNING, [pc f, prev_pc]))
        else (THREAD_RUNNING, [pc f]))"

subsection \<open>waitWhile (lines 63-74)\<close>

text \<open>
  One pass of the loop of \<^verbatim>\<open>waitWhile\<close>: the condition is evaluated; when it
  holds the clock is read, and the pass ends the wait with \<^verbatim>\<open>false\<close> when a timeout
  is set (\<^verbatim>\<open>timeout_ns != -1\<close>) and is exceeded, and otherwise goes round again
  (after a fence); when the condition does not hold the wait ends with \<^verbatim>\<open>true\<close>.
  \<open>start_time\<close> is the clock read on entry, \<open>now\<close> the clock read in this pass.
\<close>

datatype wait_pass = Finished bool | Spin

definition waitWhile_pass :: "bool \<Rightarrow> nanos \<Rightarrow> nanos \<Rightarrow> nanos \<Rightarrow> wait_pass" where
  "waitWhile_pass condition timeout_ns start_time now =
     (if condition
      then (if timeout_ns \<noteq> - 1 \<and> timeout_ns <s now - start_time then Finished False else Spin)
      else Finished True)"

subsection \<open>The handshake slot (lines 76-85)\<close>

text \<open>
  The five globals are \<^verbatim>\<open>std::atomic\<close>s, and every access to them in the file is a
  sequentially consistent one (the default order of \<^verbatim>\<open>=\<close>, of the implicit loads, of
  \<^verbatim>\<open>load()\<close> and of \<^verbatim>\<open>compare_exchange_strong\<close>).  So an execution of the timer
  thread and of the signal handlers is an interleaving of their atomic accesses, and a
  fence changes nothing: the model is a transition system whose steps are these
  accesses, one at a time.

  A \<^verbatim>\<open>Data*\<close> is \<open>None\<close> for \<^verbatim>\<open>nullptr\<close> and \<open>Some h\<close> for the address of the
  \<^verbatim>\<open>Data\<close> in the frame of the handler invocation number \<open>h\<close>.
\<close>

type_synonym data_ptr = "nat option"

datatype access =
    Store_thread_id tid
  | Store_thread_data data_ptr
  | Store_thread_data_settable bool
  | Store_stack_walked bool
  | Store_thread_data_ready bool
  | Fence

text \<open>Where an invocation of \<^verbatim>\<open>signalHandler\<close> stands (lines 115-138).\<close>

datatype hpc =
    H_check          \<comment> \<open>line 118: \<^verbatim>\<open>OS::threadId() != _thread_id\<close>\<close>
  | H_cas            \<comment> \<open>line 123: \<^verbatim>\<open>compare_exchange_strong(f, false)\<close>\<close>
  | H_fence          \<comment> \<open>lines 127-132: \<^verbatim>\<open>Data data{ucontext, VM::jni()}\<close>, fence\<close>
  | H_store_data     \<comment> \<open>line 133: \<^verbatim>\<open>_thread_data = &data\<close>\<close>
  | H_store_ready    \<comment> \<open>line 134: \<^verbatim>\<open>_thread_data_ready = true\<close>\<close>
  | H_wait_enter     \<comment> \<open>line 137, entering \<^verbatim>\<open>waitWhile\<close>: \<^verbatim>\<open>start = OS::nanotime()\<close>\<close>
  | H_wait nanos     \<comment> \<open>line 137, in the loop of \<^verbatim>\<open>waitWhile\<close>\<close>
  | H_returned

text \<open>Where the timer thread stands in \<^verbatim>\<open>walkStack\<close> (lines 87-113).\<close>

datatype dpc =
    D_idle           \<comment> \<open>\<^verbatim>\<open>walkStack\<close> not called yet\<close>
  | D_arm tid nat    \<comment> \<open>lines 89-93: before the store number \<open>k\<close> of the arm phase\<close>
  | D_signal tid     \<comment> \<open>line 96: \<^verbatim>\<open>OS::sendSignalToThread\<close>\<close>
  | D_reset          \<comment> \<open>lines 97-98 and 102-103: \<^verbatim>\<open>_thread_id = -1; return false\<close>\<close>
  | D_wait_enter     \<comment> \<open>line 101, entering \<^verbatim>\<open>waitWhile\<close>\<close>
  | D_wait nanos     \<comment> \<open>line 101, in the loop of \<^verbatim>\<open>waitWhile\<close>\<close>
  | D_load           \<comment> \<open>line 105: \<^verbatim>\<open>_thread_data.load()\<close>\<close>
  | D_record data_ptr \<comment> \<open>lines 107-109: \<^verbatim>\<open>data->ucontext\<close>, \<^verbatim>\<open>recordSample\<close>\<close>
  | D_release        \<comment> \<open>line 111: \<^verbatim>\<open>_stack_walked = true\<close>\<close>
  | D_returned bool
  | D_fault          \<comment> \<open>\<^verbatim>\<open>data->ucontext\<close> with \<^verbatim>\<open>data == nullptr\<close>\<close>

text \<open>
  The globals, the clock, the timer thread, the handler invocations so far (each with
  the id of the thread it runs on, \<^verbatim>\<open>OS::threadId()\<close>), and the calls of
  \<^verbatim>\<open>recordSample\<close> so far (each with the \<^verbatim>\<open>Data\<close> it was given).
\<close>

record world =
  thread_id :: tid
  thread_data :: data_ptr
  thread_data_settable :: bool
  thread_data_ready :: bool
  stack_walked :: bool
  nanotime :: nanos
  driver :: dpc
  handlers :: "(tid \<times> hpc) list"
  recorded :: "nat list"

text \<open>Objects of static storage duration start zeroed; no handler has run.\<close>

definition initial :: world where
  "initial = \<lparr>thread_id = 0, thread_data = None, thread_data_settable = False,
     thread_data_ready = False, stack_walked = False, nanotime = 0, driver = D_idle,
     handlers = [], recorded = []\<rparr>"

fun perform :: "access \<Rightarrow> world \<Rightarrow> world" where
  "perform (Store_thread_id t) w = w\<lparr>thread_id := t\<rparr>"
| "perform (Store_thread_data p) w = w\<lparr>thread_data := p\<rparr>"
| "perform (Store_thread_data_settable b) w = w\<lparr>thread_data_settable := b\<rparr>"
| "perform (Store_stack_walked b) w = w\<lparr>stack_walked := b\<rparr>"
| "perform (Store_thread_data_ready b) w = w\<lparr>thread_data_ready := b\<rparr>"
| "perform Fence w = w"

subsection \<open>walkStack (lines 87-113)\<close>

text \<open>The arm phase, lines 89-93, in the order of the source.\<close>

definition walkStack_arm :: "tid \<Rightarrow> access list" where
  "walkStack_arm thread_id' =
     [Store_thread_id thread_id',
      Store_thread_data None,
      Store_thread_data_settable True,
      Store_stack_walked False,
      Store_thread_data_ready False]"

text \<open>
  The next action of the timer thread inside \<^verbatim>\<open>walkStack\<close>.  The result of
  \<^verbatim>\<open>OS::sendSignalToThread\<close> is the environment's and comes with the event (see
  \<open>step\<close>); every other action is determined by the world.  Lines 107-109 read the
  \<^verbatim>\<open>Data\<close> that was loaded (a null pointer cannot be read: \<open>D_fault\<close>) and call
  \<^verbatim>\<open>recordSample\<close>; the thread state they put in the event is \<open>getThreadState\<close> above
  and does not touch the slot.
\<close>

definition driver_step :: "world \<Rightarrow> world option" where
  "driver_step w =
     (case driver w of
        D_arm t k \<Rightarrow>
          if k < length (walkStack_arm t)
          then Some ((perform (walkStack_arm t ! k) w)
                 \<lparr>driver := (if Suc k < length (walkStack_arm t) then D_arm t (Suc k) else D_signal t)\<rparr>)
          else None
      | D_reset \<Rightarrow> Some (w\<lparr>thread_id := - 1, driver := D_returned False\<rparr>)
      | D_wait_enter \<Rightarrow> Some (w\<lparr>driver := D_wait (nanotime w)\<rparr>)
      | D_wait start_time \<Rightarrow>
          (case waitWhile_pass (\<not> thread_data_ready w) HANDSHAKE_TIMEOUT start_time (nanotime w) of
             Spin \<Rightarrow> Some w
           | Finished True \<Rightarrow> Some (w\<lparr>driver := D_load\<rparr>)
           | Finished False \<Rightarrow> Some (w\<lparr>driver := D_reset\<rparr>))
      | D_load \<Rightarrow> Some (w\<lparr>driver := D_record (thread_data w)\<rparr>)
      | D_record None \<Rightarrow> Some (w\<lparr>driver := D_fault\<rparr>)
      | D_record (Some h) \<Rightarrow> Some (w\<lparr>recorded := recorded w @ [h], driver := D_release\<rparr>)
      | D_release \<Rightarrow> Some (w\<lparr>stack_walked := True, driver := D_returned True\<rparr>)
      | _ \<Rightarrow> None)"

subsection \<open>signalHandler (lines 115-138)\<close>

definition set_hpc :: "nat \<Rightarrow> hpc \<Rightarrow> world \<Rightarrow> world" where
  "set_hpc h p w = w\<lparr>handlers := (handlers w)[h := (fst (handlers w ! h), p)]\<rparr>"

text \<open>
  The next action of the handler invocation \<open>h\<close>.  The handler calls
  \<^verbatim>\<open>waitWhile\<close> with the default \<^verbatim>\<open>timeout_ns = -1\<close> and ignores what it returns.
\<close>

definition handler_step :: "nat \<Rightarrow> world \<Rightarrow> world option" where
  "handler_step h w =
     (if h < length (handlers w) then
        (case snd (handlers w ! h) of
           H_check \<Rightarrow>
             if fst (handlers w ! h) \<noteq> thread_id w then Some (set_hpc h H_returned w)
             else Some (set_hpc h H_cas w)
         | H_cas \<Rightarrow>
             if thread_data_settable w
             then Some (set_hpc h H_fence (w\<lparr>thread_data_settable := False\<rparr>))
             else Some (set_hpc h H_returned w)
         | H_fence \<Rightarrow> Some (set_hpc h H_store_data (perform Fence w))
         | H_store_data \<Rightarrow> Some (set_hpc h H_store_ready (perform (Store_thread_data (Some h)) w))
         | H_store_ready \<Rightarrow> Some (set_hpc h H_wait_enter (perform (Store_thread_data_ready True) w))
         | H_wait_enter \<Rightarrow> Some (set_hpc h (H_wait (nanotime w)) w)
         | H_wait start_time \<Rightarrow>
             (case waitWhile_pass (\<not> stack_walked w) (- 1) start_time (nanotime w) of
                Spin \<Rightarrow> Some w
              | Finished r \<Rightarrow> Some (set_hpc h H_returned w))
         | H_returned \<Rightarrow> None)
      else None)"

subsection \<open>Executions\<close>

text \<open>
  What can happen next: the timer loop calls \<^verbatim>\<open>walkStack\<close>; the timer thread
  takes its next action; \<^verbatim>\<open>OS::sendSignalToThread\<close> returns; the kernel starts an
  invocation of the handler on some thread (whether for a signal of the profiler or
  for another \<^verbatim>\<open>SIGVTALRM\<close>); an invocation takes its next action; the clock
  advances.
\<close>

datatype event =
    Call tid
  | Drv
  | Signal_sent bool
  | Deliver tid
  | Hdl nat
  | Tick nanos

definition step :: "world \<Rightarrow> event \<Rightarrow> world option" where
  "step w e =
     (case e of
        Call t \<Rightarrow>
          (case driver w of
             D_idle \<Rightarrow> Some (w\<lparr>driver := D_arm t 0\<rparr>)
           | D_returned r \<Rightarrow> Some (w\<lparr>driver := D_arm t 0\<rparr>)
           | _ \<Rightarrow> None)
      | Drv \<Rightarrow> driver_step w
      | Signal_sent ok \<Rightarrow>
          (case driver w of
             D_signal t \<Rightarrow> Some (w\<lparr>driver := (if ok then D_wait_enter else D_reset)\<rparr>)
           | _ \<Rightarrow> None)
      | Deliver t \<Rightarrow> Some (w\<lparr>handlers := handlers w @ [(t, H_check)]\<rparr>)
      | Hdl h \<Rightarrow> handler_step h w
      | Tick d \<Rightarrow> Some (w\<lparr>nanotime := nanotime w + d\<rparr>))"

fun run :: "world \<Rightarrow> event list \<Rightarrow> world option" where
  "run w [] = Some w"
| "run w (e # es) = (case step w e of None \<Rightarrow> None | Some w' \<Rightarrow> run w' es)"

text \<open>The number of steps of an execution that satisfy a predicate.\<close>

fun count_steps :: "(world \<Rightarrow> event \<Rightarrow> bool) \<Rightarrow> world \<Rightarrow> event list \<Rightarrow> nat" where
  "count_steps P w [] = 0"
| "count_steps P w (e # es) =
     (if P w e then 1 else 0) + (case step w e of None \<Rightarrow> 0 | Some w' \<Rightarrow> count_steps P w' es)"

text \<open>A handler invocation's compare-and-swap that finds \<^verbatim>\<open>true\<close> and stores \<^verbatim>\<open>false\<close>.\<close>

definition cas_wins :: "world \<Rightarrow> event \<Rightarrow> bool" where
  "cas_wins w e =
     (case e of
        Hdl h \<Rightarrow> h < length (handlers w) \<and> snd (handlers w ! h) = H_cas \<and> thread_data_settable w
      | _ \<Rightarrow> False)"

text \<open>The arm phase's store of \<^verbatim>\<open>true\<close> to \<^verbatim>\<open>_thread_data_settable\<close>.\<close>

definition arms_gate :: "world \<Rightarrow> event \<Rightarrow> bool" where
  "arms_gate w e =
     (case e of
        Drv \<Rightarrow>
          (case driver w of
             D_arm t k \<Rightarrow> k < length (walkStack_arm t) \<and> walkStack_arm t ! k = Store_thread_data_settable True
           | _ \<Rightarrow> False)
      | _ \<Rightarrow> False)"

subsection \<open>timerLoop (lines 173-226)\<close>

text \<open>
  One answer of \<^verbatim>\<open>thread_list->next()\<close> together with what the environment answers
  about that thread in this iteration: \<^verbatim>\<open>thread_filter->accept\<close>, whether
  \<^verbatim>\<open>OS::threadState\<close> is \<^verbatim>\<open>THREAD_RUNNING\<close>, and what \<^verbatim>\<open>walkStack\<close> returns (the
  outcome of the handshake above).  At the end of the list \<^verbatim>\<open>next()\<close> returns \<open>-1\<close>.
  The loop tests \<^verbatim>\<open>count < THREADS_PER_TICK\<close> before each \<^verbatim>\<open>next()\<close>.
\<close>

record visit =
  next_thread_id :: tid
  filter_accepts :: bool
  os_running :: bool
  walkStack_returns :: bool

text \<open>What the \<^verbatim>\<open>for\<close> loop of lines 194-210 leaves: the counter, the calls of
  \<^verbatim>\<open>walkStack\<close> in order with their results, the answers of \<^verbatim>\<open>next()\<close> not consumed,
  and whether the list was rewound.\<close>

record samples =
  sampled :: "32 word"
  walks :: "(tid \<times> bool) list"
  unvisited :: "visit list"
  rewound :: bool

fun sample_threads :: "tid \<Rightarrow> bool \<Rightarrow> bool \<Rightarrow> 32 word \<Rightarrow> visit list \<Rightarrow> samples" where
  "sample_threads self thread_filter_enabled sample_idle_threads count [] =
     (if count <s THREADS_PER_TICK
      then \<lparr>sampled = count, walks = [], unvisited = [], rewound = True\<rparr>
      else \<lparr>sampled = count, walks = [], unvisited = [], rewound = False\<rparr>)"
| "sample_threads self thread_filter_enabled sample_idle_threads count (v # vs) =
     (if count <s THREADS_PER_TICK then
        if next_thread_id v = - 1
        then \<lparr>sampled = count, walks = [], unvisited = vs, rewound = True\<rparr>
        else if next_thread_id v = self \<or> (thread_filter_enabled \<and> \<not> filter_accepts v)
        then sample_threads self thread_filter_enabled sample_idle_threads count vs
        else if sample_idle_threads \<or> os_running v
        then (let r = sample_threads self thread_filter_enabled sample_idle_threads
                        (if walkStack_returns v then count + 1 else count) vs
              in r\<lparr>walks := (next_thread_id v, walkStack_returns v) # walks r\<rparr>)
        else sample_threads self thread_filter_enabled sample_idle_threads count vs
      else \<lparr>sampled = count, walks = [], unvisited = v # vs, rewound = False\<rparr>)"

text \<open>The static configuration of the engine and what \<^verbatim>\<open>start\<close> sets up.\<close>

record wall_clock =
  interval :: nanos               \<comment> \<open>\<^verbatim>\<open>_interval\<close>\<close>
  sample_idle_threads :: bool     \<comment> \<open>\<^verbatim>\<open>_sample_idle_threads\<close>\<close>
  signal_handler_installed :: bool \<comment> \<open>the disposition of \<^verbatim>\<open>SIGVTALRM\<close> is \<^verbatim>\<open>signalHandler\<close>\<close>
  running :: bool                  \<comment> \<open>\<^verbatim>\<open>_running\<close>\<close>
  timer_thread :: bool             \<comment> \<open>\<^verbatim>\<open>_thread\<close> is a created thread\<close>

text \<open>What one pass of the \<^verbatim>\<open>while\<close> loop reads from its environment.\<close>

record pass_env =
  enabled :: bool                  \<comment> \<open>\<^verbatim>\<open>Engine::_enabled\<close>\<close>
  own_thread_id :: tid             \<comment> \<open>\<^verbatim>\<open>self\<close>\<close>
  thread_filter_enabled :: bool
  thread_filter_size :: "32 word"
  thread_list_size :: "32 word"
  visits :: "visit list"
  current_time :: nanos            \<comment> \<open>\<^verbatim>\<open>OS::nanotime()\<close> at line 213\<close>

text \<open>What one pass does: the new \<^verbatim>\<open>next_cycle_time\<close>, the argument of its one call
  of \<^verbatim>\<open>OS::sleep\<close>, and the samples it took (none when the engine is disabled).\<close>

record pass =
  next_cycle_time :: nanos
  slept :: nanos
  sampling :: "samples option"

definition timerLoop_pass :: "wall_clock \<Rightarrow> pass_env \<Rightarrow> nanos \<Rightarrow> pass" where
  "timerLoop_pass c e next_cycle_time' =
     (if \<not> enabled e
      then \<lparr>next_cycle_time = next_cycle_time', slept = interval c, sampling = None\<rparr>
      else
        let estimated_thread_count =
              (if thread_filter_enabled e then thread_filter_size e else thread_list_size e);
            t = (if sample_idle_threads c
                 then next_cycle_time' + adjustInterval (interval c) estimated_thread_count
                 else next_cycle_time');
            s = sample_threads (own_thread_id e) (thread_filter_enabled e)
                  (sample_idle_threads c) 0 (visits e)
        in if sample_idle_threads c
           then (if MIN_INTERVAL <s t - current_time e
                 then \<lparr>next_cycle_time = t, slept = t - current_time e, sampling = Some s\<rparr>
                 else \<lparr>next_cycle_time = current_time e + MIN_INTERVAL, slept = MIN_INTERVAL,
                        sampling = Some s\<rparr>)
           else \<lparr>next_cycle_time = t, slept = interval c, sampling = Some s\<rparr>)"

text \<open>The \<^verbatim>\<open>while (_running)\<close> loop over the passes the environment allows: each
  element says what \<^verbatim>\<open>_running\<close> is at the loop head and what the pass reads.\<close>

fun timerLoop :: "wall_clock \<Rightarrow> nanos \<Rightarrow> (bool \<times> pass_env) list \<Rightarrow> pass list" where
  "timerLoop c t [] = []"
| "timerLoop c t ((running_now, e) # es) =
     (if running_now
      then timerLoop_pass c e t # timerLoop c (next_cycle_time (timerLoop_pass c e t)) es
      else [])"

subsection \<open>start (lines 147-165) and Engine::check (engine.cpp, lines 26-28)\<close>

datatype error = OK | Error string

record arguments =
  wall :: nanos          \<comment> \<open>\<^verbatim>\<open>args._wall\<close>\<close>
  interval_arg :: nanos  \<comment> \<open>\<^verbatim>\<open>args._interval\<close>\<close>
  event_arg :: string    \<comment> \<open>\<^verbatim>\<open>args._event\<close>\<close>

text \<open>Modelled from the spec: the constant \<^verbatim>\<open>EVENT_WALL\<close> is not defined in the files
  here; the spec gives \<open>sample_idle = (wall \<ge> 0 or event_name == "wall")\<close>.\<close>

definition EVENT_WALL :: string where
  "EVENT_WALL = ''wall''"

definition check :: "arguments \<Rightarrow> error" where
  "check args = OK"

text \<open>
  \<^verbatim>\<open>DEFAULT_INTERVAL\<close> is not defined in the files here and is a parameter, as is
  whether \<^verbatim>\<open>pthread_create\<close> succeeds.
\<close>

definition start :: "nanos \<Rightarrow> bool \<Rightarrow> arguments \<Rightarrow> wall_clock \<Rightarrow> error \<times> wall_clock" where
  "start DEFAULT_INTERVAL thread_created args c =
     (let idle = (0 \<le>s wall args \<or> event_arg args = EVENT_WALL);
          i = (if 0 \<le>s wall args then wall args else interval_arg args);
          i' = (if i = 0 then (if idle then DEFAULT_INTERVAL * 5 else DEFAULT_INTERVAL) else i);
          c' = c\<lparr>interval := i', sample_idle_threads := idle,
                 signal_handler_installed := True, running := True\<rparr>
      in if \<not> thread_created
         then (Error ''Unable to create timer thread'', c')
         else (OK, c'\<lparr>timer_thread := True\<rparr>))"

subsection \<open>Observations of an execution\<close>

definition is_call :: "event \<Rightarrow> bool" where
  "is_call e = (case e of Call t \<Rightarrow> True | _ \<Rightarrow> False)"

text \<open>The positions of \<^verbatim>\<open>walkStack\<close> before line 105: arming, signalling, waiting, and
  the two resets.\<close>

definition before_load :: "dpc \<Rightarrow> bool" where
  "before_load p =
     (case p of
        D_arm t k \<Rightarrow> True
      | D_signal t \<Rightarrow> True
      | D_reset \<Rightarrow> True
      | D_wait_enter \<Rightarrow> True
      | D_wait since \<Rightarrow> True
      | _ \<Rightarrow> False)"



text \<open>A handler invocation between its compare-and-swap and its store of
  \<^verbatim>\<open>_thread_data_ready\<close> (lines 127-134).\<close>

definition publishing :: "hpc \<Rightarrow> bool" where
  "publishing p = (p = H_fence \<or> p = H_store_data \<or> p = H_store_ready)"

definition nobody_publishing :: "world \<Rightarrow> bool" where
  "nobody_publishing w = list_all (\<lambda>x. \<not> publishing (snd x)) (handlers w)"

definition arming :: "dpc \<Rightarrow> bool" where
  "arming p = (case p of D_arm t k \<Rightarrow> True | _ \<Rightarrow> False)"

text \<open>
  What holds from the end of an undisturbed arm phase to the next call: the timer
  thread is not arming, and as long as the gate is open nothing has been published or
  released, nobody is publishing, and the timer thread has not got past its wait
  (or has given up).
\<close>

definition gate_clean :: "world \<Rightarrow> bool" where
  "gate_clean w =
     (\<not> arming (driver w) \<and>
      (if thread_data_settable w
       then \<not> thread_data_ready w \<and> \<not> stack_walked w \<and> nobody_publishing w \<and>
            (before_load (driver w) \<or> driver w = D_returned False)
       else True))"

subsection \<open>Example worlds and schedules\<close>

text \<open>The slot armed for thread 5, the signal sent, and two invocations of the handler
  started on thread 5.\<close>

definition armed_twice :: world where
  "armed_twice = \<lparr>thread_id = 5, thread_data = None, thread_data_settable = True,
     thread_data_ready = False, stack_walked = False, nanotime = 0, driver = D_wait_enter,
     handlers = [(5, H_check), (5, H_check)], recorded = []\<rparr>"

definition race_of_two :: "event list" where
  "race_of_two = [Hdl 0, Hdl 1, Hdl 1, Hdl 0, Hdl 1, Hdl 1, Hdl 1, Hdl 1, Hdl 1]"



text \<open>
  A handler that answers late.  \<^verbatim>\<open>walkStack(7)\<close> arms the slot and sends the signal;
  the handler on thread 7 passes the check, wins the compare-and-swap and stores
  \<^verbatim>\<open>&data\<close>, and is then held up (its thread is preempted) for more than the 10 ms of
  the timeout; the timer thread gives up, and the timer loop goes on to
  \<^verbatim>\<open>walkStack(8)\<close>, which arms the slot again and sends its signal; now the first
  handler stores \<^verbatim>\<open>_thread_data_ready = true\<close>, and the timer thread's wait sees it.
\<close>

definition late_publisher :: "event list" where
  "late_publisher =
     [Call 7, Drv, Drv, Drv, Drv, Drv, Signal_sent True, Drv,
      Deliver 7, Hdl 0, Hdl 0, Hdl 0, Hdl 0,
      Tick 10000001, Drv, Drv,
      Call 8, Drv, Drv, Drv, Drv, Drv, Signal_sent True, Drv,
      Hdl 0,
      Drv]"

text \<open>
  A handler that starts while the slot is being armed.  \<^verbatim>\<open>walkStack(7)\<close> sends its
  signal, but thread 7 does not run the handler within the timeout, and the call
  fails; \<^verbatim>\<open>walkStack(5)\<close> then completes a handshake, which leaves
  \<^verbatim>\<open>_thread_data_ready\<close> and \<^verbatim>\<open>_stack_walked\<close> true; the next \<^verbatim>\<open>walkStack(7)\<close> has
  done its first three stores when the handler for the pending signal at last runs on
  thread 7 and reaches its compare-and-swap.
\<close>

definition early_handler :: "event list" where
  "early_handler =
     [Call 7, Drv, Drv, Drv, Drv, Drv, Signal_sent True, Drv, Tick 10000001, Drv, Drv,
      Call 5, Drv, Drv, Drv, Drv, Drv, Signal_sent True, Drv,
      Deliver 5, Hdl 0, Hdl 0, Hdl 0, Hdl 0, Hdl 0, Hdl 0,
      Drv, Drv, Drv, Drv, Hdl 0,
      Call 7, Drv, Drv, Drv,
      Deliver 7, Hdl 1]"

definition stopped :: wall_clock where
  "stopped = \<lparr>interval = 0, sample_idle_threads = False, signal_handler_installed = False,
     running = False, timer_thread = False\<rparr>"

definition quiet_pass :: pass_env where
  "quiet_pass = \<lparr>enabled = False, own_thread_id = 1, thread_filter_enabled = False,
     thread_filter_size = 0, thread_list_size = 2, visits = [], current_time = 5000\<rparr>"

section \<open>Properties\<close>

subsection \<open>adjustInterval\<close>

lemma sint_in_range64: "- (2 ^ 63) \<le> sint (w :: 64 word) \<and> sint w < 2 ^ 63"
  using sint_ge [of w] sint_lt [of w] by simp

lemma sdiv_pos_pos: "0 \<le> (a::int) \<Longrightarrow> 0 < b \<Longrightarrow> a sdiv b = a div b"
  by (simp add: signed_divide_int_def sgn_if)

lemma ticks_sint:
  assumes "8 < sint n" "sint n \<le> 2 ^ 31 - 8"
  shows "sint (c_div (n + THREADS_PER_TICK - 1) THREADS_PER_TICK) = (sint n + 7) div 8"
proof -
  define m where "m = n + THREADS_PER_TICK - 1"
  have a: "m = n + 7" by (simp add: m_def THREADS_PER_TICK_def)
  have "sint (n + 7) = signed_take_bit 31 (sint n + 7)"
    by (simp add: sint_word_ariths)
  then have "sint m = signed_take_bit 31 (sint n + 7)"
    by (simp only: a)
  also have "\<dots> = sint n + 7"
    using assms by (simp add: signed_take_bit_int_eq_self_iff)
  finally have b: "sint m = sint n + 7" .
  have t: "sint THREADS_PER_TICK = 8" by (simp add: THREADS_PER_TICK_def)
  have c: "(sint n + 7) sdiv 8 = (sint n + 7) div 8"
    using assms by (simp add: sdiv_pos_pos)
  have d: "- (2 ^ 31) \<le> (sint n + 7) div 8 \<and> (sint n + 7) div 8 < 2 ^ 31"
    using assms by linarith
  have "sint (c_div m THREADS_PER_TICK) = signed_take_bit 31 ((sint n + 7) div 8)"
    by (simp add: c_div_def b t c sint_sbintrunc')
  also have "\<dots> = (sint n + 7) div 8"
    using d by (simp only: signed_take_bit_int_eq_self_iff)
  finally show ?thesis by (simp only: m_def)
qed

lemma abs_sdiv_le_half:
  assumes "2 \<le> (b::int)"
  shows "\<bar>a sdiv b\<bar> \<le> \<bar>a\<bar> div 2"
proof -
  have "\<bar>a sdiv b\<bar> = \<bar>a\<bar> div b"
  proof -
    have "0 \<le> \<bar>a\<bar> div b" using assms by (simp add: pos_imp_zdiv_nonneg_iff)
    then show ?thesis
      using assms by (simp add: signed_divide_int_def sgn_if abs_mult)
  qed
  also have "\<dots> \<le> \<bar>a\<bar> div 2"
    using assms by (intro zdiv_mono2) simp_all
  finally show ?thesis .
qed

lemma c_div_sint64:
  assumes "2 \<le> sint d"
  shows "sint (c_div (i :: 64 word) d) = sint i sdiv sint d"
proof -
  have "\<bar>sint i sdiv sint d\<bar> \<le> \<bar>sint i\<bar> div 2"
    using assms by (rule abs_sdiv_le_half)
  then have "- (2 ^ 63) \<le> sint i sdiv sint d \<and> sint i sdiv sint d < 2 ^ 63"
    using sint_in_range64 [of i] by linarith
  then show ?thesis
    by (simp add: c_div_def sint_sbintrunc' signed_take_bit_int_eq_self_iff)
qed

lemma ceil_div8: "(k + 7) div 8 = \<lceil>real_of_int k / 8\<rceil>" for k :: int
  by linarith

text \<open>
  Claim C8.  \<^verbatim>\<open>adjustInterval(interval, n)\<close> returns the interval unchanged when
  \<open>n \<le> THREADS_PER_TICK = 8\<close>; otherwise it returns the interval divided, with C++'s
  truncating integer division, by \<open>(n + 8 - 1) / 8\<close>, which is \<open>\<lceil>n / 8\<rceil>\<close>.  The second
  part is stated for the thread counts whose \<open>n + 7\<close> is an \<^verbatim>\<open>int\<close>
  (\<open>n \<le> 2\<^sup>3\<^sup>1 - 8\<close>): beyond them the addition overflows, which C++ leaves undefined.
\<close>

theorem adjustInterval_spec:
  "(sint n \<le> sint THREADS_PER_TICK \<longrightarrow> adjustInterval i n = i) \<and>
   (sint THREADS_PER_TICK < sint n \<and> sint n \<le> 2 ^ 31 - 8 \<longrightarrow>
      sint (adjustInterval i n) = sint i sdiv ((sint n + sint THREADS_PER_TICK - 1) div sint THREADS_PER_TICK) \<and>
      (sint n + sint THREADS_PER_TICK - 1) div sint THREADS_PER_TICK = \<lceil>real_of_int (sint n) / real_of_int (sint THREADS_PER_TICK)\<rceil>)"
proof -
  have t: "sint THREADS_PER_TICK = 8" by (simp add: THREADS_PER_TICK_def)
  have one: "adjustInterval i n = i" if "sint n \<le> 8"
    using that by (simp add: adjustInterval_def word_sless_alt t)
  have two: "sint (adjustInterval i n) = sint i sdiv ((sint n + 8 - 1) div 8)"
    if h: "8 < sint n \<and> sint n \<le> 2 ^ 31 - 8"
  proof -
    let ?q = "c_div (n + THREADS_PER_TICK - 1) THREADS_PER_TICK"
    have q: "sint ?q = (sint n + 7) div 8" using h by (simp add: ticks_sint)
    have up: "sint (scast ?q :: 64 word) = sint ?q"
      by (rule sint_up_scast) (simp add: is_up)
    have "2 \<le> (sint n + 7) div 8" using h by linarith
    then have "2 \<le> sint (scast ?q :: 64 word)" by (simp add: up q)
    then have "sint (c_div i (scast ?q)) = sint i sdiv sint (scast ?q :: 64 word)"
      by (rule c_div_sint64)
    then have "sint (c_div i (scast ?q)) = sint i sdiv ((sint n + 7) div 8)"
      by (simp only: up q)
    moreover have "adjustInterval i n = c_div i (scast ?q)"
      using h by (simp add: adjustInterval_def word_sless_alt t)
    moreover have "sint n + 8 - 1 = sint n + 7" by simp
    ultimately show ?thesis by (simp only:)
  qed
  have three: "(sint n + 8 - 1) div 8 = \<lceil>real_of_int (sint n) / real_of_int 8\<rceil>"
    using ceil_div8 [of "sint n"] by simp
  show ?thesis
    unfolding t using one two three by blast
qed

theorem adjustInterval_spec_witness:
  "adjustInterval 10000000 5 = 10000000 \<and>
   sint (adjustInterval 10000000 64) = 1250000 \<and>
   sint (adjustInterval (- 10000001) 64) = - 1250000"
proof -
  have t: "sint THREADS_PER_TICK = 8" by (simp add: THREADS_PER_TICK_def)
  have lo: "sint (5 :: 32 word) \<le> sint THREADS_PER_TICK" by (simp add: t)
  have hi: "sint THREADS_PER_TICK < sint (64 :: 32 word) \<and> sint (64 :: 32 word) \<le> 2 ^ 31 - 8"
    by (simp add: t)
  have d: "(sint (64 :: 32 word) + sint THREADS_PER_TICK - 1) div sint THREADS_PER_TICK = 8"
    by (simp add: t)
  have A: "adjustInterval 10000000 5 = 10000000"
    using adjustInterval_spec [of 5 10000000] lo by blast
  have B: "sint (adjustInterval 10000000 64) = sint (10000000 :: 64 word) sdiv 8"
    using adjustInterval_spec [of 64 10000000] hi unfolding d by blast
  have C: "sint (adjustInterval (- 10000001) 64) = sint (- 10000001 :: 64 word) sdiv 8"
    using adjustInterval_spec [of 64 "- 10000001"] hi unfolding d by blast
  have E: "sint (10000000 :: 64 word) sdiv 8 = 1250000"
    by (simp add: signed_divide_int_def)
  have F: "sint (- 10000001 :: 64 word) sdiv 8 = - 1250000"
    by (simp add: signed_divide_int_def)
  show ?thesis
    using A B [unfolded E] C [unfolded F] by (intro conjI)
qed

subsection \<open>getThreadState\<close>

text \<open>
  Claim C2.  \<^verbatim>\<open>getThreadState\<close> returns SLEEPING when the instruction at \<open>pc\<close> is
  the syscall instruction.  Otherwise it reads the instruction at
  \<open>prev_pc = pc - SYSCALL_SIZE\<close> only when the low 12 bits of \<open>pc\<close> are at least
  \<open>SYSCALL_SIZE\<close> or the library oracle maps \<open>prev_pc\<close>, and returns SLEEPING when
  that instruction is a syscall and the interrupted-syscall check of the frame
  succeeds.  In all other cases it returns RUNNING.
\<close>

theorem getThreadState_spec:
  "fst (getThreadState m f) =
     (if isSyscall m (pc f) then THREAD_SLEEPING
      else if (SYSCALL_SIZE m \<le> (pc f AND 0xfff) \<or> findLibraryByAddress m (pc f - SYSCALL_SIZE m))
              \<and> isSyscall m (pc f - SYSCALL_SIZE m) \<and> checkInterruptedSyscall f
           then THREAD_SLEEPING
      else THREAD_RUNNING) \<and>
   snd (getThreadState m f) =
     (if \<not> isSyscall m (pc f) \<and>
         (SYSCALL_SIZE m \<le> (pc f AND 0xfff) \<or> findLibraryByAddress m (pc f - SYSCALL_SIZE m))
      then [pc f, pc f - SYSCALL_SIZE m]
      else [pc f])"
  by (simp add: getThreadState_def Let_def)

subsection \<open>Steps of the handshake\<close>

lemma arm_index_cases: "k < length (walkStack_arm t) \<Longrightarrow> k = 0 \<or> k = 1 \<or> k = 2 \<or> k = 3 \<or> k = 4"
  by (simp add: walkStack_arm_def) arith

lemma arm_store_gate:
  assumes "k < length (walkStack_arm t)"
  shows "thread_data_settable (perform (walkStack_arm t ! k) w) =
     (if walkStack_arm t ! k = Store_thread_data_settable True then True else thread_data_settable w)"
  using arm_index_cases [OF assms] by (auto simp: walkStack_arm_def)

lemma driver_step_gate:
  assumes "driver_step w = Some w'"
  shows "thread_data_settable w' =
     (if arms_gate w Drv then True else thread_data_settable w)"
proof (cases "driver w")
  case (D_arm t k)
  with assms show ?thesis
    by (auto simp: driver_step_def arms_gate_def arm_store_gate split: if_splits)
next
  case (D_wait since)
  with assms show ?thesis
    by (auto simp: driver_step_def arms_gate_def split: wait_pass.splits bool.splits)
next
  case (D_record p)
  with assms show ?thesis
    by (cases p) (auto simp: driver_step_def arms_gate_def)
qed (use assms in \<open>auto simp: driver_step_def arms_gate_def\<close>)

lemma handler_step_gate:
  assumes "handler_step h w = Some w'"
  shows "thread_data_settable w' = (if cas_wins w (Hdl h) then False else thread_data_settable w)"
proof -
  from assms have h: "h < length (handlers w)"
    by (auto simp: handler_step_def split: if_splits)
  show ?thesis
  proof (cases "snd (handlers w ! h)")
    case (H_wait since)
    with assms h show ?thesis
      by (auto simp: handler_step_def cas_wins_def set_hpc_def split: wait_pass.splits)
  qed (use assms h in \<open>auto simp: handler_step_def cas_wins_def set_hpc_def split: if_splits\<close>)
qed

lemma step_gate:
  assumes "step w e = Some w'"
  shows "thread_data_settable w' =
     (if cas_wins w e then False else if arms_gate w e then True else thread_data_settable w)"
proof (cases e)
  case Drv
  with assms show ?thesis
    by (simp add: step_def driver_step_gate cas_wins_def)
next
  case (Hdl h)
  with assms show ?thesis
    by (simp add: step_def handler_step_gate arms_gate_def)
next
  case (Call t)
  with assms show ?thesis
    by (auto simp: step_def cas_wins_def arms_gate_def split: dpc.splits)
next
  case (Signal_sent ok)
  with assms show ?thesis
    by (auto simp: step_def cas_wins_def arms_gate_def split: dpc.splits)
next
  case (Deliver t)
  with assms show ?thesis
    by (auto simp: step_def cas_wins_def arms_gate_def)
next
  case (Tick d)
  with assms show ?thesis
    by (auto simp: step_def cas_wins_def arms_gate_def)
qed

lemma cas_wins_gate: "cas_wins w e \<Longrightarrow> thread_data_settable w"
  by (auto simp: cas_wins_def split: event.splits)

lemma cas_wins_not_arms: "cas_wins w e \<Longrightarrow> \<not> arms_gate w e"
  by (auto simp: cas_wins_def arms_gate_def split: event.splits)

text \<open>
  Every compare-and-swap that wins consumes a \<^verbatim>\<open>true\<close> of the gate, and only the arm
  phase's store writes one.
\<close>

lemma wins_bounded:
  "count_steps cas_wins w es \<le> count_steps arms_gate w es + (if thread_data_settable w then 1 else 0)"
proof (induction es arbitrary: w)
  case Nil
  show ?case by simp
next
  case (Cons e es)
  show ?case
  proof (cases "step w e")
    case None
    then show ?thesis
      using cas_wins_gate [of w e] by auto
  next
    case (Some w')
    have g: "thread_data_settable w' =
       (if cas_wins w e then False else if arms_gate w e then True else thread_data_settable w)"
      using Some by (rule step_gate)
    have ih: "count_steps cas_wins w' es \<le> count_steps arms_gate w' es + (if thread_data_settable w' then 1 else 0)"
      by (rule Cons.IH)
    show ?thesis
    proof (cases "cas_wins w e")
      case True
      then have "thread_data_settable w" "\<not> arms_gate w e" "\<not> thread_data_settable w'"
        using g by (simp_all add: cas_wins_gate cas_wins_not_arms)
      then show ?thesis using ih Some True by simp
    next
      case False
      then show ?thesis using ih Some g by (cases "arms_gate w e") auto
    qed
  qed
qed

text \<open>
  Claim C1.  Within one arm phase, that is in any stretch of an execution in which the
  timer thread does not store \<^verbatim>\<open>true\<close> to \<^verbatim>\<open>_thread_data_settable\<close> again, at most one
  handler invocation's compare-and-swap finds \<^verbatim>\<open>true\<close> and stores \<^verbatim>\<open>false\<close>, whatever
  the number of invocations and the schedule.  A compare-and-swap that does not win
  sends its invocation straight to its return, and changes nothing else.
\<close>

theorem at_most_one_handshake:
  "(count_steps arms_gate w es = 0 \<longrightarrow> count_steps cas_wins w es \<le> 1) \<and>
   (h < length (handlers w) \<and> snd (handlers w ! h) = H_cas \<and> \<not> cas_wins w (Hdl h)
      \<longrightarrow> step w (Hdl h) = Some (w\<lparr>handlers := (handlers w)[h := (fst (handlers w ! h), H_returned)]\<rparr>))"
proof -
  have "count_steps cas_wins w es \<le> 1" if "count_steps arms_gate w es = 0"
    using wins_bounded [of w es] that by (simp split: if_splits)
  moreover have "step w (Hdl h) = Some (w\<lparr>handlers := (handlers w)[h := (fst (handlers w ! h), H_returned)]\<rparr>)"
    if "h < length (handlers w) \<and> snd (handlers w ! h) = H_cas \<and> \<not> cas_wins w (Hdl h)"
    using that by (simp add: step_def handler_step_def set_hpc_def cas_wins_def)
  ultimately show ?thesis by blast
qed

theorem at_most_one_handshake_witness:
  "count_steps arms_gate armed_twice race_of_two = 0 \<and>
   count_steps cas_wins armed_twice race_of_two \<le> 1 \<and>
   count_steps cas_wins armed_twice race_of_two = 1 \<and>
   run armed_twice race_of_two = Some (armed_twice\<lparr>thread_data := Some 1,
     thread_data_settable := False, thread_data_ready := True,
     handlers := [(5, H_returned), (5, H_wait 0)]\<rparr>) \<and>
   step (armed_twice\<lparr>thread_data_settable := False, handlers := [(5, H_cas), (5, H_fence)]\<rparr>) (Hdl 0)
     = Some (armed_twice\<lparr>thread_data_settable := False, handlers := [(5, H_returned), (5, H_fence)]\<rparr>)"
proof -
  let ?l = "armed_twice\<lparr>thread_data_settable := False, handlers := [(5, H_cas), (5, H_fence)]\<rparr>"
  have a: "count_steps arms_gate armed_twice race_of_two = 0"
    by (simp add: armed_twice_def race_of_two_def arms_gate_def step_def handler_step_def
        set_hpc_def waitWhile_pass_def)
  have b: "run armed_twice race_of_two = Some (armed_twice\<lparr>thread_data := Some 1,
     thread_data_settable := False, thread_data_ready := True,
     handlers := [(5, H_returned), (5, H_wait 0)]\<rparr>)"
    by (simp add: armed_twice_def race_of_two_def step_def handler_step_def
        set_hpc_def waitWhile_pass_def)
  have c: "count_steps cas_wins armed_twice race_of_two = 1"
    by (simp add: armed_twice_def race_of_two_def cas_wins_def step_def handler_step_def
        set_hpc_def waitWhile_pass_def)
  have d: "0 < length (handlers ?l) \<and> snd (handlers ?l ! 0) = H_cas \<and> \<not> cas_wins ?l (Hdl 0)"
    by (simp add: armed_twice_def cas_wins_def)
  have one: "count_steps cas_wins armed_twice race_of_two \<le> 1"
    using at_most_one_handshake [where w = armed_twice and es = race_of_two and h = 0] a by blast
  have two: "step ?l (Hdl 0) = Some (?l\<lparr>handlers := (handlers ?l)[0 := (fst (handlers ?l ! 0), H_returned)]\<rparr>)"
    using at_most_one_handshake [where w = ?l and es = "[]" and h = 0] d by blast
  show ?thesis
    using a b c one two by (simp add: armed_twice_def)
qed

subsection \<open>The handler's early exits and its wait\<close>

lemma perform_handlers: "handlers (perform a w) = handlers w"
  by (cases a) simp_all

lemma driver_step_handlers: "driver_step w = Some w' \<Longrightarrow> handlers w' = handlers w"
  by (auto simp: driver_step_def perform_handlers
      split: dpc.splits if_splits wait_pass.splits bool.splits option.splits)

lemma handler_step_others:
  "handler_step h' w = Some w' \<Longrightarrow> h \<noteq> h' \<Longrightarrow> handlers w' ! h = handlers w ! h"
  by (auto simp: handler_step_def set_hpc_def
      split: hpc.splits if_splits wait_pass.splits)

lemma step_other_handlers:
  assumes "step w e = Some w'" "h < length (handlers w)" "e \<noteq> Hdl h"
  shows "handlers w' ! h = handlers w ! h"
proof (cases e)
  case Drv
  with assms show ?thesis by (simp add: step_def driver_step_handlers)
next
  case (Hdl h')
  with assms show ?thesis by (auto simp: step_def handler_step_others)
next
  case (Deliver t)
  with assms show ?thesis by (auto simp: step_def nth_append)
qed (use assms in \<open>auto simp: step_def split: dpc.splits\<close>)

lemma waitWhile_no_timeout: "waitWhile_pass c (- 1) since now = (if c then Spin else Finished True)"
  by (simp add: waitWhile_pass_def)

lemma handler_step_returns:
  assumes "handler_step h w = Some w'"
    and "snd (handlers w ! h) \<notin> {H_check, H_cas, H_returned}"
    and "snd (handlers w' ! h) = H_returned"
  shows "stack_walked w \<and> (\<exists>since. snd (handlers w ! h) = H_wait since)"
proof -
  from assms(1) have h: "h < length (handlers w)"
    by (auto simp: handler_step_def split: if_splits)
  show ?thesis
  proof (cases "snd (handlers w ! h)")
    case (H_wait since)
    with assms h show ?thesis
      by (cases "stack_walked w")
        (auto simp: handler_step_def set_hpc_def waitWhile_no_timeout)
  qed (use assms h in \<open>auto simp: handler_step_def set_hpc_def\<close>)
qed

text \<open>
  Claim C4.  A handler invocation whose thread id differs from \<^verbatim>\<open>_thread_id\<close>, or
  whose compare-and-swap finds \<^verbatim>\<open>_thread_data_settable\<close> false, returns in that
  very step: nothing of the world changes but its own position, so \<^verbatim>\<open>_thread_data\<close>,
  \<^verbatim>\<open>_thread_data_ready\<close> and \<^verbatim>\<open>_stack_walked\<close> are what they were, and having returned it
  takes no further step (it does not spin).
\<close>

theorem handler_early_exit:
  assumes "h < length (handlers w)"
    and "(snd (handlers w ! h) = H_check \<and> fst (handlers w ! h) \<noteq> thread_id w) \<or>
         (snd (handlers w ! h) = H_cas \<and> \<not> thread_data_settable w)"
  shows "step w (Hdl h) = Some (w\<lparr>handlers := (handlers w)[h := (fst (handlers w ! h), H_returned)]\<rparr>) \<and>
         step (w\<lparr>handlers := (handlers w)[h := (fst (handlers w ! h), H_returned)]\<rparr>) (Hdl h) = None"
  using assms by (auto simp: step_def handler_step_def set_hpc_def)

theorem handler_early_exit_witness:
  "step (armed_twice\<lparr>thread_id := 6\<rparr>) (Hdl 0) =
     Some (armed_twice\<lparr>thread_id := 6, handlers := [(5, H_returned), (5, H_check)]\<rparr>) \<and>
   step (armed_twice\<lparr>thread_data_settable := False, handlers := [(5, H_check), (5, H_cas)]\<rparr>) (Hdl 1) =
     Some (armed_twice\<lparr>thread_data_settable := False, handlers := [(5, H_check), (5, H_returned)]\<rparr>) \<and>
   step (armed_twice\<lparr>thread_data_settable := False, handlers := [(5, H_check), (5, H_returned)]\<rparr>) (Hdl 1) = None"
  using handler_early_exit [of 0 "armed_twice\<lparr>thread_id := 6\<rparr>"]
    handler_early_exit [of 1 "armed_twice\<lparr>thread_data_settable := False, handlers := [(5, H_check), (5, H_cas)]\<rparr>"]
  by (simp add: armed_twice_def)

text \<open>
  Claim C5.  A handler invocation that has passed the thread-id check and won the
  compare-and-swap returns only in a step of its wait in which it reads
  \<^verbatim>\<open>_stack_walked\<close> true: no step of anyone takes it from after the compare-and-swap
  to its return otherwise.  Its \<^verbatim>\<open>waitWhile\<close> has no timeout (\<^verbatim>\<open>timeout_ns = -1\<close>
  never ends a wait with \<^verbatim>\<open>false\<close>), and while \<^verbatim>\<open>_stack_walked\<close> is false a pass of
  the wait leaves the invocation waiting, whatever the clock says.
\<close>

theorem handler_waits_for_release:
  "(step w e = Some w' \<and> h < length (handlers w) \<and>
      snd (handlers w ! h) \<notin> {H_check, H_cas, H_returned} \<and> snd (handlers w' ! h) = H_returned
      \<longrightarrow> stack_walked w \<and> e = Hdl h \<and> (\<exists>since. snd (handlers w ! h) = H_wait since)) \<and>
   (h < length (handlers w) \<and> snd (handlers w ! h) = H_wait since \<and> \<not> stack_walked w
      \<longrightarrow> step w (Hdl h) = Some w) \<and>
   waitWhile_pass c (- 1) since now \<noteq> Finished False"
proof -
  have one: "stack_walked w \<and> e = Hdl h \<and> (\<exists>since. snd (handlers w ! h) = H_wait since)"
    if a: "step w e = Some w' \<and> h < length (handlers w) \<and>
      snd (handlers w ! h) \<notin> {H_check, H_cas, H_returned} \<and> snd (handlers w' ! h) = H_returned"
  proof -
    have e: "e = Hdl h"
    proof (rule ccontr)
      assume "e \<noteq> Hdl h"
      with a have "handlers w' ! h = handlers w ! h"
        by (intro step_other_handlers) auto
      with a show False by simp
    qed
    with a have "handler_step h w = Some w'" by (simp add: step_def)
    with a have "stack_walked w \<and> (\<exists>since. snd (handlers w ! h) = H_wait since)"
      by (intro handler_step_returns) auto
    with e show ?thesis by simp
  qed
  have two: "step w (Hdl h) = Some w"
    if "h < length (handlers w) \<and> snd (handlers w ! h) = H_wait since \<and> \<not> stack_walked w"
    using that by (simp add: step_def handler_step_def waitWhile_no_timeout)
  have three: "waitWhile_pass c (- 1) since now \<noteq> Finished False"
    by (simp add: waitWhile_no_timeout)
  show ?thesis
    using one two three by blast
qed

theorem handler_waits_for_release_witness:
  "step (armed_twice\<lparr>stack_walked := True, handlers := [(5, H_wait 0), (5, H_returned)]\<rparr>) (Hdl 0)
     = Some (armed_twice\<lparr>stack_walked := True, handlers := [(5, H_returned), (5, H_returned)]\<rparr>) \<and>
   step (armed_twice\<lparr>nanotime := 99999999999, handlers := [(5, H_wait 0), (5, H_returned)]\<rparr>) (Hdl 0)
     = Some (armed_twice\<lparr>nanotime := 99999999999, handlers := [(5, H_wait 0), (5, H_returned)]\<rparr>) \<and>
   waitWhile_pass True (- 1) 0 99999999999 \<noteq> Finished False"
proof -
  let ?w = "armed_twice\<lparr>stack_walked := True, handlers := [(5, H_wait 0), (5, H_returned)]\<rparr>"
  let ?w' = "armed_twice\<lparr>stack_walked := True, handlers := [(5, H_returned), (5, H_returned)]\<rparr>"
  let ?v = "armed_twice\<lparr>nanotime := 99999999999, handlers := [(5, H_wait 0), (5, H_returned)]\<rparr>"
  have s: "step ?w (Hdl 0) = Some ?w'"
    by (simp add: armed_twice_def step_def handler_step_def set_hpc_def waitWhile_pass_def)
  have "stack_walked ?w \<and> Hdl 0 = Hdl 0 \<and> (\<exists>since. snd (handlers ?w ! 0) = H_wait since)"
    using handler_waits_for_release [where w = ?w and e = "Hdl 0" and w' = ?w' and h = 0] s
    by (simp add: armed_twice_def)
  moreover have "step ?v (Hdl 0) = Some ?v"
    using handler_waits_for_release [where w = ?v and h = 0 and since = 0]
    by (simp add: armed_twice_def)
  moreover have "waitWhile_pass True (- 1) 0 99999999999 \<noteq> Finished False"
    using handler_waits_for_release [where c = True and since = 0 and now = 99999999999]
    by blast
  ultimately show ?thesis using s by simp
qed

subsection \<open>The failure paths of walkStack\<close>


lemma handler_step_frame:
  assumes "handler_step h w = Some w'"
  shows "thread_id w' = thread_id w \<and> recorded w' = recorded w \<and> driver w' = driver w"
proof (cases "snd (handlers w ! h)")
  case (H_wait since)
  with assms show ?thesis
    by (auto simp: handler_step_def set_hpc_def split: if_splits wait_pass.splits)
qed (use assms in \<open>auto simp: handler_step_def set_hpc_def split: if_splits\<close>)






lemmas executes = initial_def step_def driver_step_def handler_step_def
  walkStack_arm_def set_hpc_def waitWhile_pass_def HANDSHAKE_TIMEOUT_def


subsection \<open>The arm phase\<close>

lemma handler_step_gate_clean:
  assumes "handler_step h w = Some w'" "gate_clean w"
  shows "gate_clean w'"
proof -
  from assms(1) have h: "h < length (handlers w)"
    by (auto simp: handler_step_def split: if_splits)
  have frame: "driver w' = driver w"
    using assms(1) by (simp add: handler_step_frame)
  show ?thesis
  proof (cases "thread_data_settable w")
    case False
    then have "\<not> thread_data_settable w'"
      using handler_step_gate [OF assms(1)] by (simp split: if_splits)
    with assms frame show ?thesis by (simp add: gate_clean_def)
  next
    case True
    with assms(2) have c: "\<not> thread_data_ready w" "\<not> stack_walked w" "nobody_publishing w"
      "before_load (driver w) \<or> driver w = D_returned False" "\<not> arming (driver w)"
      by (simp_all add: gate_clean_def)
    from c(3) h have np: "\<not> publishing (snd (handlers w ! h))"
      by (simp add: nobody_publishing_def list_all_length)
    show ?thesis
    proof (cases "snd (handlers w ! h)")
      case H_check
      with assms(1) h c True show ?thesis
        by (auto simp: handler_step_def set_hpc_def gate_clean_def nobody_publishing_def
            publishing_def list_all_length nth_list_update split: if_splits)
    next
      case H_cas
      with assms(1) h c True show ?thesis
        by (auto simp: handler_step_def set_hpc_def gate_clean_def)
    next
      case H_wait_enter
      with assms(1) h c True show ?thesis
        by (auto simp: handler_step_def set_hpc_def gate_clean_def nobody_publishing_def
            publishing_def list_all_length nth_list_update split: if_splits)
    next
      case (H_wait since)
      with assms(1) h c True show ?thesis
        by (auto simp: handler_step_def set_hpc_def gate_clean_def waitWhile_no_timeout)
    next
      case H_returned
      with assms(1) h show ?thesis by (simp add: handler_step_def)
    qed (use np in \<open>simp_all add: publishing_def\<close>)
  qed
qed

lemma driver_step_gate_clean:
  assumes "driver_step w = Some w'" "gate_clean w"
  shows "gate_clean w'"
proof (cases "driver w")
  case (D_arm t k)
  with assms show ?thesis by (simp add: gate_clean_def arming_def)
next
  case (D_wait since)
  with assms show ?thesis
    by (auto simp: driver_step_def gate_clean_def arming_def before_load_def
        nobody_publishing_def waitWhile_pass_def split: if_splits)
next
  case (D_record p)
  with assms show ?thesis
    by (cases p)
      (auto simp: driver_step_def gate_clean_def arming_def before_load_def nobody_publishing_def)
qed (use assms in \<open>auto simp: driver_step_def gate_clean_def arming_def before_load_def
       nobody_publishing_def\<close>)

lemma step_gate_clean:
  assumes "step w e = Some w'" "\<not> is_call e" "gate_clean w"
  shows "gate_clean w'"
proof (cases e)
  case (Call t)
  with assms show ?thesis by (simp add: is_call_def)
next
  case Drv
  with assms show ?thesis by (simp add: step_def driver_step_gate_clean)
next
  case (Signal_sent ok)
  with assms show ?thesis
    by (auto simp: step_def gate_clean_def arming_def before_load_def nobody_publishing_def
        split: dpc.splits if_splits)
next
  case (Deliver t)
  with assms show ?thesis
    by (auto simp: step_def gate_clean_def nobody_publishing_def publishing_def)
next
  case (Hdl h)
  with assms show ?thesis by (simp add: step_def handler_step_gate_clean)
next
  case (Tick d)
  with assms show ?thesis
    by (auto simp: step_def gate_clean_def nobody_publishing_def)
qed

lemma run_gate_clean:
  "run w es = Some w' \<Longrightarrow> list_all (\<lambda>e. \<not> is_call e) es \<Longrightarrow> gate_clean w \<Longrightarrow> gate_clean w'"
proof (induction es arbitrary: w)
  case Nil
  then show ?case by simp
next
  case (Cons e es)
  from Cons.prems(1) obtain w1 where s: "step w e = Some w1" and r: "run w1 es = Some w'"
    by (auto split: option.splits)
  from Cons.prems have "gate_clean w1"
    by (intro step_gate_clean [OF s]) simp_all
  with Cons.prems show ?case
    by (intro Cons.IH [OF r]) simp_all
qed

text \<open>
  The stores of the arm phase one after the other, from any world: the gate is opened
  by the third store, before \<^verbatim>\<open>_stack_walked\<close> and \<^verbatim>\<open>_thread_data_ready\<close> are cleared by
  the fourth and the fifth, and no fence is among the actions.
\<close>

lemma arm_phase_stores:
  "run (w\<lparr>driver := D_arm t 0\<rparr>) [Drv]
     = Some (w\<lparr>thread_id := t, driver := D_arm t 1\<rparr>) \<and>
   run (w\<lparr>driver := D_arm t 0\<rparr>) [Drv, Drv]
     = Some (w\<lparr>thread_id := t, thread_data := None, driver := D_arm t 2\<rparr>) \<and>
   run (w\<lparr>driver := D_arm t 0\<rparr>) [Drv, Drv, Drv]
     = Some (w\<lparr>thread_id := t, thread_data := None, thread_data_settable := True,
          driver := D_arm t 3\<rparr>) \<and>
   run (w\<lparr>driver := D_arm t 0\<rparr>) [Drv, Drv, Drv, Drv]
     = Some (w\<lparr>thread_id := t, thread_data := None, thread_data_settable := True,
          stack_walked := False, driver := D_arm t 4\<rparr>) \<and>
   run (w\<lparr>driver := D_arm t 0\<rparr>) [Drv, Drv, Drv, Drv, Drv]
     = Some (w\<lparr>thread_id := t, thread_data := None, thread_data_settable := True,
          stack_walked := False, thread_data_ready := False, driver := D_signal t\<rparr>) \<and>
   Fence \<notin> set (walkStack_arm t)"
  by (simp add: walkStack_arm_def step_def driver_step_def)

text \<open>
  Once the five stores are done, and provided no handler invocation stood between its
  compare-and-swap and its store of \<^verbatim>\<open>_thread_data_ready\<close> meanwhile, a handler whose
  compare-and-swap finds the gate open before the next call does find both flags
  cleared: what goes wrong below is the place of the gate's store alone.
\<close>

lemma undisturbed_arm_phase:
  assumes "nobody_publishing w" "list_all (\<lambda>e. \<not> is_call e) es"
    and "run (w\<lparr>thread_id := t, thread_data := None, thread_data_settable := True,
          stack_walked := False, thread_data_ready := False, driver := D_signal t\<rparr>) es = Some w'"
    and "cas_wins w' (Hdl h)"
  shows "\<not> thread_data_ready w' \<and> \<not> stack_walked w'"
proof -
  let ?armed = "w\<lparr>thread_id := t, thread_data := None, thread_data_settable := True,
          stack_walked := False, thread_data_ready := False, driver := D_signal t\<rparr>"
  from assms(1) have "gate_clean ?armed"
    by (simp add: gate_clean_def arming_def before_load_def nobody_publishing_def)
  with assms have "gate_clean w'"
    by (intro run_gate_clean [of ?armed es w']) simp_all
  moreover have "thread_data_settable w'"
    using assms(4) by (rule cas_wins_gate)
  ultimately show ?thesis by (simp add: gate_clean_def)
qed

text \<open>
  Claim C3 says that the arm phase of \<^verbatim>\<open>walkStack\<close> stores \<^verbatim>\<open>_thread_id = T\<close>, then
  \<^verbatim>\<open>_thread_data = nullptr\<close>, \<^verbatim>\<open>_thread_data_ready = false\<close>, \<^verbatim>\<open>_stack_walked = false\<close>,
  and \<^verbatim>\<open>_thread_data_settable = true\<close> last, so that a handler that finds the gate open
  also finds \<^verbatim>\<open>_thread_data_ready\<close> and \<^verbatim>\<open>_stack_walked\<close> cleared.  The code does not
  keep to it: line 91 opens the gate before lines 92-93 clear the two flags.  In the
  execution \<open>early_handler\<close> the compare-and-swap of the handler on thread 7 finds
  the gate open, after the third store, while both flags are still true from the
  handshake before; the handler publishes, and the first pass of its wait ends on the
  stale \<^verbatim>\<open>_stack_walked\<close>: it returns although the timer thread has not walked its
  stack (no call of \<^verbatim>\<open>recordSample\<close> for it), which the comment at lines 135-136
  rules out.
\<close>

theorem gate_open_before_flags_cleared:
  "walkStack_arm 7 =
     [Store_thread_id 7, Store_thread_data None, Store_thread_data_settable True,
      Store_stack_walked False, Store_thread_data_ready False] \<and>
   run initial early_handler = Some
     \<lparr>thread_id = 7, thread_data = None, thread_data_settable = True,
      thread_data_ready = True, stack_walked = True, nanotime = 10000001,
      driver = D_arm 7 3, handlers = [(5, H_returned), (7, H_cas)], recorded = [0]\<rparr> \<and>
   cas_wins
     \<lparr>thread_id = 7, thread_data = None, thread_data_settable = True,
      thread_data_ready = True, stack_walked = True, nanotime = 10000001,
      driver = D_arm 7 3, handlers = [(5, H_returned), (7, H_cas)], recorded = [0]\<rparr> (Hdl 1) \<and>
   run initial (early_handler @ [Hdl 1, Hdl 1, Hdl 1, Hdl 1, Hdl 1, Hdl 1]) = Some
     \<lparr>thread_id = 7, thread_data = Some 1, thread_data_settable = False,
      thread_data_ready = True, stack_walked = True, nanotime = 10000001,
      driver = D_arm 7 3, handlers = [(5, H_returned), (7, H_returned)], recorded = [0]\<rparr>"
proof -
  have a: "run initial early_handler = Some
     \<lparr>thread_id = 7, thread_data = None, thread_data_settable = True,
      thread_data_ready = True, stack_walked = True, nanotime = 10000001,
      driver = D_arm 7 3, handlers = [(5, H_returned), (7, H_cas)], recorded = [0]\<rparr>"
    by (simp add: early_handler_def executes)
  have b: "run initial (early_handler @ [Hdl 1, Hdl 1, Hdl 1, Hdl 1, Hdl 1, Hdl 1]) = Some
     \<lparr>thread_id = 7, thread_data = Some 1, thread_data_settable = False,
      thread_data_ready = True, stack_walked = True, nanotime = 10000001,
      driver = D_arm 7 3, handlers = [(5, H_returned), (7, H_returned)], recorded = [0]\<rparr>"
    by (simp add: early_handler_def executes)
  show ?thesis
    using a b by (simp add: walkStack_arm_def cas_wins_def)
qed

subsection \<open>A published pointer that is null\<close>

text \<open>
  Claim C6 says that whenever the timer thread observes \<^verbatim>\<open>_thread_data_ready\<close> true
  during a handshake, \<^verbatim>\<open>_thread_data\<close> is not null.  The code does not keep to it: in
  the execution \<open>late_publisher\<close> the wait of \<^verbatim>\<open>walkStack(8)\<close> observes the flag
  true while \<^verbatim>\<open>_thread_data\<close> is null, because the handler that sets the flag stored its
  pointer before the arm phase of this call cleared it.  The load of line 105 then
  yields null, and line 108 dereferences it.
\<close>

theorem ready_with_null_data:
  "run initial late_publisher = Some
     \<lparr>thread_id = 8, thread_data = None, thread_data_settable = True,
      thread_data_ready = True, stack_walked = False, nanotime = 10000001,
      driver = D_load, handlers = [(7, H_wait_enter)], recorded = []\<rparr> \<and>
   run initial (late_publisher @ [Drv, Drv]) = Some
     \<lparr>thread_id = 8, thread_data = None, thread_data_settable = True,
      thread_data_ready = True, stack_walked = False, nanotime = 10000001,
      driver = D_fault, handlers = [(7, H_wait_enter)], recorded = []\<rparr>"
  by (simp add: late_publisher_def executes)

subsection \<open>The timer loop's sleep\<close>

lemma timerLoop_floor:
  "sample_idle_threads c \<Longrightarrow> list_all (\<lambda>(r, e). enabled e) es \<Longrightarrow>
   list_all (\<lambda>p. MIN_INTERVAL \<le>s slept p) (timerLoop c n es)"
proof (induction es arbitrary: n)
  case Nil
  show ?case by simp
next
  case (Cons x es)
  obtain r e where x: "x = (r, e)" by (cases x)
  have "MIN_INTERVAL \<le>s slept (timerLoop_pass c e n)"
    using Cons.prems x by (simp add: timerLoop_pass_def Let_def word_sle_eq word_sless_alt)
  moreover have "list_all (\<lambda>p. MIN_INTERVAL \<le>s slept p)
     (timerLoop c (next_cycle_time (timerLoop_pass c e n)) es)"
    using Cons.prems by (intro Cons.IH) simp_all
  ultimately show ?case by (simp add: x)
qed

text \<open>
  Claim C10, as amended.  \<open>MIN_INTERVAL\<close> is 100 microseconds.  In idle-sampling mode
  every pass of the timer loop in which the engine is enabled sleeps for at least
  \<open>MIN_INTERVAL\<close>: when the slack \<open>next_cycle_time - now\<close> exceeds \<open>MIN_INTERVAL\<close> it
  sleeps for the slack, otherwise it sets \<open>next_cycle_time\<close> to \<open>now + MIN_INTERVAL\<close> and
  sleeps exactly \<open>MIN_INTERVAL\<close>.
\<close>

theorem min_interval_floor:
  "MIN_INTERVAL = 100 * NANOS_PER_MICRO \<and>
   (enabled e \<and> sample_idle_threads c \<longrightarrow>
      slept (timerLoop_pass c e n) =
        (if MIN_INTERVAL <s
              n + adjustInterval (interval c)
                    (if thread_filter_enabled e then thread_filter_size e else thread_list_size e)
                - current_time e
         then n + adjustInterval (interval c)
                    (if thread_filter_enabled e then thread_filter_size e else thread_list_size e)
                - current_time e
         else MIN_INTERVAL) \<and>
      next_cycle_time (timerLoop_pass c e n) =
        (if MIN_INTERVAL <s
              n + adjustInterval (interval c)
                    (if thread_filter_enabled e then thread_filter_size e else thread_list_size e)
                - current_time e
         then n + adjustInterval (interval c)
                    (if thread_filter_enabled e then thread_filter_size e else thread_list_size e)
         else current_time e + MIN_INTERVAL) \<and>
      MIN_INTERVAL \<le>s slept (timerLoop_pass c e n)) \<and>
   (sample_idle_threads c \<and> list_all (\<lambda>(r, e). enabled e) es \<longrightarrow>
      list_all (\<lambda>p. MIN_INTERVAL \<le>s slept p) (timerLoop c n es))"
proof -
  have "MIN_INTERVAL = 100 * NANOS_PER_MICRO"
    by (simp add: MIN_INTERVAL_def NANOS_PER_MICRO_def)
  moreover have "enabled e \<and> sample_idle_threads c \<longrightarrow>
      slept (timerLoop_pass c e n) =
        (if MIN_INTERVAL <s
              n + adjustInterval (interval c)
                    (if thread_filter_enabled e then thread_filter_size e else thread_list_size e)
                - current_time e
         then n + adjustInterval (interval c)
                    (if thread_filter_enabled e then thread_filter_size e else thread_list_size e)
                - current_time e
         else MIN_INTERVAL) \<and>
      next_cycle_time (timerLoop_pass c e n) =
        (if MIN_INTERVAL <s
              n + adjustInterval (interval c)
                    (if thread_filter_enabled e then thread_filter_size e else thread_list_size e)
                - current_time e
         then n + adjustInterval (interval c)
                    (if thread_filter_enabled e then thread_filter_size e else thread_list_size e)
         else current_time e + MIN_INTERVAL) \<and>
      MIN_INTERVAL \<le>s slept (timerLoop_pass c e n)"
    by (simp add: timerLoop_pass_def Let_def word_sle_eq word_sless_alt)
  moreover have "sample_idle_threads c \<and> list_all (\<lambda>(r, e). enabled e) es \<longrightarrow>
      list_all (\<lambda>p. MIN_INTERVAL \<le>s slept p) (timerLoop c n es)"
    using timerLoop_floor [of c es n] by blast
  ultimately show ?thesis by blast
qed

theorem min_interval_floor_witness:
  "MIN_INTERVAL \<le>s slept (timerLoop_pass (stopped\<lparr>interval := 10000000, sample_idle_threads := True\<rparr>)
       (quiet_pass\<lparr>enabled := True\<rparr>) 0) \<and>
   timerLoop_pass (stopped\<lparr>interval := 10000000, sample_idle_threads := True\<rparr>)
       (quiet_pass\<lparr>enabled := True\<rparr>) 0
     = \<lparr>next_cycle_time = 10000000, slept = 9995000,
        sampling = Some \<lparr>sampled = 0, walks = [], unvisited = [], rewound = True\<rparr>\<rparr> \<and>
   MIN_INTERVAL \<le>s slept (timerLoop_pass (stopped\<lparr>interval := 1000, sample_idle_threads := True\<rparr>)
       (quiet_pass\<lparr>enabled := True\<rparr>) 0) \<and>
   timerLoop_pass (stopped\<lparr>interval := 1000, sample_idle_threads := True\<rparr>)
       (quiet_pass\<lparr>enabled := True\<rparr>) 0
     = \<lparr>next_cycle_time = 105000, slept = 100000,
        sampling = Some \<lparr>sampled = 0, walks = [], unvisited = [], rewound = True\<rparr>\<rparr> \<and>
   list_all (\<lambda>p. MIN_INTERVAL \<le>s slept p)
     (timerLoop (stopped\<lparr>interval := 1000, sample_idle_threads := True\<rparr>) 0
        [(True, quiet_pass\<lparr>enabled := True\<rparr>), (True, quiet_pass\<lparr>enabled := True\<rparr>)])"
proof -
  let ?c = "stopped\<lparr>interval := 10000000, sample_idle_threads := True\<rparr>"
  let ?d = "stopped\<lparr>interval := 1000, sample_idle_threads := True\<rparr>"
  let ?e = "quiet_pass\<lparr>enabled := True\<rparr>"
  let ?es = "[(True, ?e), (True, ?e)]"
  have a: "adjustInterval 10000000 2 = 10000000" "adjustInterval 1000 2 = 1000"
    by (simp_all add: adjustInterval_def THREADS_PER_TICK_def word_sless_alt)
  have hc: "enabled ?e \<and> sample_idle_threads ?c" by (simp add: stopped_def quiet_pass_def)
  have hd: "enabled ?e \<and> sample_idle_threads ?d" by (simp add: stopped_def quiet_pass_def)
  have hl: "sample_idle_threads ?d \<and> list_all (\<lambda>(r, e). enabled e) ?es"
    by (simp add: stopped_def quiet_pass_def)
  have one: "MIN_INTERVAL \<le>s slept (timerLoop_pass ?c ?e 0)"
    using min_interval_floor [where e = ?e and c = ?c and n = 0 and es = ?es] hc by blast
  have two: "MIN_INTERVAL \<le>s slept (timerLoop_pass ?d ?e 0)"
    using min_interval_floor [where e = ?e and c = ?d and n = 0 and es = ?es] hd by blast
  have three: "list_all (\<lambda>p. MIN_INTERVAL \<le>s slept p) (timerLoop ?d 0 ?es)"
    using min_interval_floor [where e = ?e and c = ?d and n = 0 and es = ?es] hl by blast
  have four: "timerLoop_pass ?c ?e 0
     = \<lparr>next_cycle_time = 10000000, slept = 9995000,
        sampling = Some \<lparr>sampled = 0, walks = [], unvisited = [], rewound = True\<rparr>\<rparr>"
    by (simp add: timerLoop_pass_def stopped_def quiet_pass_def a MIN_INTERVAL_def
        THREADS_PER_TICK_def word_sless_alt)
  have five: "timerLoop_pass ?d ?e 0
     = \<lparr>next_cycle_time = 105000, slept = 100000,
        sampling = Some \<lparr>sampled = 0, walks = [], unvisited = [], rewound = True\<rparr>\<rparr>"
    by (simp add: timerLoop_pass_def stopped_def quiet_pass_def a MIN_INTERVAL_def
        THREADS_PER_TICK_def word_sless_alt)
  show ?thesis
    using one two three four five by blast
qed

text \<open>A pass that finds the engine disabled sleeps for the configured interval, here
  1000 ns, in idle-sampling mode too.\<close>

theorem min_interval_floor_counterexample:
  "sample_idle_threads (stopped\<lparr>interval := 1000, sample_idle_threads := True\<rparr>) \<and>
   slept (timerLoop_pass (stopped\<lparr>interval := 1000, sample_idle_threads := True\<rparr>) quiet_pass 0) = 1000 \<and>
   \<not> MIN_INTERVAL \<le>s slept (timerLoop_pass (stopped\<lparr>interval := 1000, sample_idle_threads := True\<rparr>) quiet_pass 0)"
  by (simp add: timerLoop_pass_def stopped_def quiet_pass_def MIN_INTERVAL_def word_sle_eq)

subsection \<open>start\<close>

text \<open>
  Claim C9, as amended.  \<^verbatim>\<open>start\<close> validates nothing and returns no configuration
  error, and \<^verbatim>\<open>Engine::check\<close> accepts every argument: whatever the interval and the
  event, \<^verbatim>\<open>start\<close> sets \<^verbatim>\<open>_sample_idle_threads\<close> and \<^verbatim>\<open>_interval\<close>, installs the signal
  handler and sets \<^verbatim>\<open>_running\<close>; it then fails exactly when the timer thread cannot be
  created, with the configuration, the handler and the running flag already set.
\<close>

theorem start_spec:
  "check args = OK \<and>
   fst (start D created args c) =
     (if created then OK else Error ''Unable to create timer thread'') \<and>
   snd (start D created args c) =
     c\<lparr>interval :=
         (if (if 0 \<le>s wall args then wall args else interval_arg args) = 0
          then (if 0 \<le>s wall args \<or> event_arg args = EVENT_WALL then D * 5 else D)
          else (if 0 \<le>s wall args then wall args else interval_arg args)),
       sample_idle_threads := (0 \<le>s wall args \<or> event_arg args = EVENT_WALL),
       signal_handler_installed := True,
       running := True,
       timer_thread := (created \<or> timer_thread c)\<rparr>"
  by (simp add: check_def start_def Let_def)

text \<open>With a negative interval and an unknown event \<^verbatim>\<open>start\<close> returns \<open>OK\<close> and
  has changed the state.\<close>

theorem start_spec_counterexample:
  "check \<lparr>wall = - 1, interval_arg = - 5, event_arg = ''bogus''\<rparr> = OK \<and>
   start 10000000 True \<lparr>wall = - 1, interval_arg = - 5, event_arg = ''bogus''\<rparr> stopped
     = (OK, \<lparr>interval = - 5, sample_idle_threads = False, signal_handler_installed = True,
             running = True, timer_thread = True\<rparr>) \<and>
   snd (start 10000000 True \<lparr>wall = - 1, interval_arg = - 5, event_arg = ''bogus''\<rparr> stopped) \<noteq> stopped"
  by (simp add: check_def start_def stopped_def EVENT_WALL_def Let_def word_sle_eq)

end
